theory Spec2Isabelle
  imports Complex_Main
begin

section \<open>Python values, exceptions and the platform\<close>

text \<open>
  The program is \<^verbatim>\<open>button3.py\<close>, a MicroPython script: push buttons with interrupt-driven
  debouncing (\<^verbatim>\<open>Button\<close>), a registry of buttons keyed by pin (\<^verbatim>\<open>KeyList\<close>), and a PWM
  volume (\<^verbatim>\<open>Volume\<close>) driven by two buttons.

  Objects have identity: a button instance is a reference into a heap of button records,
  a pin is its identity. An exception of the source is a value of \<open>exn\<close>; a method that
  mutates before it raises returns the exception together with the state it leaves behind.
\<close>

type_synonym pin = nat
type_synonym bref = nat
type_synonym callable = nat

datatype exn =
    AssertionError | TypeError | IndexError | ZeroDivisionError
  | ValueError | OverflowError | AttributeError | CallbackError

datatype pyval =
    VNone
  | VInt int
  | VStr string
  | VTuple "pyval list"
  | VList "pyval list"
  | VButton bref
  | VObj nat

type_synonym kwdict = "(string \<times> pyval) list"

section \<open>KeyList\<close>

text \<open>
  \<^verbatim>\<open>_findkey\<close> scans \<^verbatim>\<open>range(len(self._klist))\<close> and returns the first index whose key
  equals \<open>key\<close>, or \<open>-1\<close>.
\<close>

fun findkey_from :: "nat \<Rightarrow> ('k \<times> 'v) list \<Rightarrow> 'k \<Rightarrow> int" where
  "findkey_from i [] key = - 1"
| "findkey_from i (item # rest) key =
     (if fst item = key then int i else findkey_from (Suc i) rest key)"

definition kl_findkey :: "('k \<times> 'v) list \<Rightarrow> 'k \<Rightarrow> int" where
  "kl_findkey klist key = findkey_from 0 klist key"

definition kl_setitem :: "('k \<times> 'v) list \<Rightarrow> 'k \<Rightarrow> 'v \<Rightarrow> ('k \<times> 'v) list" where
  "kl_setitem klist key val =
     (let i = kl_findkey klist key
      in if i \<noteq> - 1 then klist[nat i := (key, val)] else klist @ [(key, val)])"

definition kl_getitem :: "('k \<times> 'v) list \<Rightarrow> 'k \<Rightarrow> 'v option" where
  "kl_getitem klist key =
     (let i = kl_findkey klist key
      in if i \<noteq> - 1 then Some (snd (klist ! nat i)) else None)"

definition kl_keys :: "('k \<times> 'v) list \<Rightarrow> 'k list" where
  "kl_keys klist = map fst klist"

definition kl_values :: "('k \<times> 'v) list \<Rightarrow> 'v list" where
  "kl_values klist = map snd klist"

section \<open>The clock\<close>

text \<open>
  \<^verbatim>\<open>time.ticks_ms()\<close> is an input: each reading is a field of the interrupt being handled.
  \<^verbatim>\<open>time.ticks_diff\<close> is MicroPython's:
  \<^verbatim>\<open>((end - start + PERIOD/2) & (PERIOD - 1)) - PERIOD/2\<close>, with the period \<open>2 ^ 30\<close> of the
  32-bit ports (the script is wired for a Raspberry Pi Pico).
\<close>

definition TICKS_PERIOD :: int where
  "TICKS_PERIOD = 2 ^ 30"

definition ticks_diff :: "int \<Rightarrow> int \<Rightarrow> int" where
  "ticks_diff ticks1 ticks2 =
     (ticks1 - ticks2 + TICKS_PERIOD div 2) mod TICKS_PERIOD - TICKS_PERIOD div 2"

section \<open>Button\<close>

text \<open>
  The fields of a \<^verbatim>\<open>Button\<close> instance, \<^verbatim>\<open>self._x\<close> as \<open>b_x\<close>. \<^verbatim>\<open>self._signal\<close> is
  \<^verbatim>\<open>Signal(_pin, invert=self._invert)\<close>: reading it gives the pin's raw level, inverted when
  \<open>b_invert\<close> is set. The raw level is an input.
\<close>

record button =
  b_pin :: pin
  b_invert :: bool
  b_name :: string
  b_time_ticks :: int
  b_dtime :: int
  b_count :: int
  b_function :: "callable option"
  b_fargs :: pyval
  b_fkwargs :: "kwdict option"

definition signal_value :: "button \<Rightarrow> bool \<Rightarrow> bool" where
  "signal_value b raw = (raw \<noteq> b_invert b)"

datatype trigger = IRQ_FALLING | IRQ_RISING

text \<open>
  A call of a registered function, as the call site composes it: the callee, the positional
  arguments and the keyword arguments in order.
\<close>

datatype call = Call callable "pyval list" kwdict

text \<open>
  The program state: the class attribute \<^verbatim>\<open>Button._kroster\<close>, the button objects by
  reference, the calls made to registered functions so far, and the interrupts armed with
  \<^verbatim>\<open>pin.irq\<close>. The \<^verbatim>\<open>print\<close> calls are not modelled.
\<close>

record world =
  roster :: "(pin \<times> bref) list"
  heap :: "button list"
  calls :: "call list"
  irq_log :: "(pin \<times> trigger) list"

definition world0 :: world where
  "world0 = \<lparr>roster = [], heap = [], calls = [], irq_log = []\<rparr>"

definition upd_button :: "world \<Rightarrow> bref \<Rightarrow> (button \<Rightarrow> button) \<Rightarrow> world" where
  "upd_button w r f = w\<lparr>heap := (heap w)[r := f (heap w ! r)]\<rparr>"

subsection \<open>Names\<close>

text \<open>\<^verbatim>\<open>str.split\<close> on a one-character separator.\<close>

fun split_on :: "char \<Rightarrow> string \<Rightarrow> string list" where
  "split_on c [] = [[]]"
| "split_on c (x # xs) =
     (if x = c then [] # split_on c xs
      else (case split_on c xs of
              [] \<Rightarrow> [[x]]
            | p # ps \<Rightarrow> (x # p) # ps))"

text \<open>
  \<^verbatim>\<open>repr(pin).split("(")[1].split(",")[0]\<close>; the text of \<^verbatim>\<open>repr(pin)\<close> is an input.
  Index 1 of a one-element list raises.
\<close>

definition get_name :: "string \<Rightarrow> exn + string" where
  "get_name pin_repr =
     (case split_on CHR ''('' pin_repr of
        _ # p # _ \<Rightarrow> (case split_on CHR '','' p of q # _ \<Rightarrow> Inr q | [] \<Rightarrow> Inl IndexError)
      | _ \<Rightarrow> Inl IndexError)"

subsection \<open>The registry\<close>

definition get_myself :: "world \<Rightarrow> pin \<Rightarrow> bref option" where
  "get_myself w p = kl_getitem (roster w) p"

text \<open>
  \<^verbatim>\<open>_put_myself\<close> looks the pin up first; \<^verbatim>\<open>del btn\<close> only unbinds the local name, the
  old instance stays wherever else it is referenced.
\<close>

definition put_myself :: "world \<Rightarrow> bref \<Rightarrow> pin \<Rightarrow> world" where
  "put_myself w self p =
     (let btn = get_myself w p
      in w\<lparr>roster := kl_setitem (roster w) p self\<rparr>)"

definition exist_myself :: "world \<Rightarrow> bref \<Rightarrow> bool" where
  "exist_myself w self = (self \<in> set (kl_values (roster w)))"

subsection \<open>Construction\<close>

text \<open>
  \<^verbatim>\<open>Button.__init__\<close>. The new instance is the next free reference. \<^verbatim>\<open>name if name else ...\<close>
  takes the given name unless it is \<^verbatim>\<open>None\<close> or empty. When \<^verbatim>\<open>_get_name\<close> raises, the
  instance has not been registered and is unreachable.
\<close>

definition Button_init ::
  "world \<Rightarrow> pin \<Rightarrow> string \<Rightarrow> string option \<Rightarrow> bool \<Rightarrow> int \<Rightarrow> callable option \<Rightarrow> pyval
     \<Rightarrow> kwdict option \<Rightarrow> (exn + bref) \<times> world" where
  "Button_init w p pin_repr name invert bouncetime function args kwargs =
     (case (case name of
              None \<Rightarrow> get_name pin_repr
            | Some n \<Rightarrow> if n \<noteq> [] then Inr n else get_name pin_repr) of
        Inl x \<Rightarrow> (Inl x, w)
      | Inr nm \<Rightarrow>
          (let self = length (heap w);
               obj = \<lparr>b_pin = p, b_invert = invert, b_name = nm, b_time_ticks = 0,
                      b_dtime = bouncetime, b_count = 0, b_function = function,
                      b_fargs = args, b_fkwargs = kwargs\<rparr>;
               w1 = w\<lparr>heap := heap w @ [obj]\<rparr>;
               w2 = put_myself w1 self p;
               w3 = w2\<lparr>irq_log := irq_log w2 @
                      [(p, if invert then IRQ_FALLING else IRQ_RISING)]\<rparr>
           in (Inr self, w3)))"

subsection \<open>Callback dispatch\<close>

text \<open>
  \<^verbatim>\<open>function(*fargs, **fkwargs, myself=self)\<close>: Python raises \<^verbatim>\<open>TypeError\<close> when the
  unpacked dictionary already holds the keyword \<^verbatim>\<open>myself\<close>, before the callee is entered.
\<close>

definition call_with_myself :: "bref \<Rightarrow> callable \<Rightarrow> pyval list \<Rightarrow> kwdict \<Rightarrow> exn + call" where
  "call_with_myself self function pos kw =
     (if ''myself'' \<in> set (map fst kw) then Inl TypeError
      else Inr (Call function pos (kw @ [(''myself'', VButton self)])))"

definition truthy_kwargs :: "kwdict option \<Rightarrow> bool" where
  "truthy_kwargs fkwargs = (case fkwargs of None \<Rightarrow> False | Some kw \<Rightarrow> kw \<noteq> [])"

definition do_function :: "bref \<Rightarrow> callable \<Rightarrow> pyval \<Rightarrow> kwdict option \<Rightarrow> exn + call" where
  "do_function self function fargs fkwargs =
     (if fargs \<noteq> VNone then
        (let fargs' = (case fargs of VTuple xs \<Rightarrow> xs | v \<Rightarrow> [v])
         in if truthy_kwargs fkwargs then call_with_myself self function fargs' (the fkwargs)
            else call_with_myself self function fargs' [])
      else if truthy_kwargs fkwargs then call_with_myself self function [] (the fkwargs)
      else call_with_myself self function [] [])"

subsection \<open>The interrupt handler\<close>

text \<open>
  What one interrupt brings from outside: the two clock readings (the debounce check's and the
  one stored after the callback), the raw level of the pin when the signal is re-read, and
  whether the registered function, once called, raises. A registered function is taken not
  to touch the buttons or the registry itself.
\<close>

record edge =
  now_check :: int
  level :: bool
  cb_raises :: bool
  now_store :: int

text \<open>How the handler ended: one of its three early returns, its last line, or an exception.\<close>

datatype outcome = NoButton | Bounce | Ghost | Pushed | Raised exn

definition handler :: "world \<Rightarrow> pin \<Rightarrow> edge \<Rightarrow> outcome \<times> world" where
  "handler w p e =
     (case get_myself w p of
        None \<Rightarrow> (NoButton, w)
      | Some r \<Rightarrow>
          (let myself = heap w ! r
           in if ticks_diff (now_check e) (b_time_ticks myself) < b_dtime myself
              then (Bounce, w)
              else if \<not> signal_value myself (level e) then (Ghost, w)
              else
                (let w1 = upd_button w r (\<lambda>b. b\<lparr>b_count := b_count b + 1\<rparr>);
                     stamp = (\<lambda>v. upd_button v r (\<lambda>b. b\<lparr>b_time_ticks := now_store e\<rparr>))
                 in case b_function myself of
                      None \<Rightarrow> (Pushed, stamp w1)
                    | Some f \<Rightarrow>
                        (case do_function r f (b_fargs myself) (b_fkwargs myself) of
                           Inl x \<Rightarrow> (Raised x, w1)
                         | Inr c \<Rightarrow>
                             (let w2 = w1\<lparr>calls := calls w1 @ [c]\<rparr>
                              in if cb_raises e then (Raised CallbackError, w2)
                                 else (Pushed, stamp w2))))))"

definition set_function ::
  "world \<Rightarrow> bref \<Rightarrow> callable option \<Rightarrow> pyval \<Rightarrow> kwdict option \<Rightarrow> (exn + unit) \<times> world" where
  "set_function w self function args kwargs =
     (if \<not> exist_myself w self then (Inl AssertionError, w)
      else (Inr (),
            upd_button w self
              (\<lambda>b. b\<lparr>b_function := function, b_fargs := args, b_fkwargs := kwargs\<rparr>)))"

definition get_count :: "world \<Rightarrow> bref \<Rightarrow> int" where
  "get_count w self = b_count (heap w ! self)"

definition reset_count :: "world \<Rightarrow> bref \<Rightarrow> world" where
  "reset_count w self = upd_button w self (\<lambda>b. b\<lparr>b_count := 0\<rparr>)"

definition get_signal :: "button \<Rightarrow> bool \<Rightarrow> bool" where
  "get_signal b raw = signal_value b raw"

subsection \<open>Sequences of interrupts\<close>

text \<open>
  Interrupts are handled one after the other. \<open>run\<close> feeds interrupts on any pins to the
  handler; \<open>outcomes\<close> lists how the handler ended on each interrupt of one pin.
\<close>

fun run :: "world \<Rightarrow> (pin \<times> edge) list \<Rightarrow> world" where
  "run w [] = w"
| "run w (pe # pes) = run (snd (handler w (fst pe) (snd pe))) pes"

fun outcomes :: "world \<Rightarrow> pin \<Rightarrow> edge list \<Rightarrow> outcome list" where
  "outcomes w p [] = []"
| "outcomes w p (e # es) = fst (handler w p e) # outcomes (snd (handler w p e)) p es"

text \<open>An interrupt is accepted when handling it increments the press counter of the pin's button.\<close>

definition accepts :: "world \<Rightarrow> pin \<Rightarrow> edge \<Rightarrow> bool" where
  "accepts w p e =
     (case get_myself w p of
        None \<Rightarrow> False
      | Some r \<Rightarrow> get_count (snd (handler w p e)) r = get_count w r + 1)"

fun accepted :: "world \<Rightarrow> pin \<Rightarrow> edge list \<Rightarrow> edge list" where
  "accepted w p [] = []"
| "accepted w p (e # es) =
     (if accepts w p e then [e] else []) @ accepted (snd (handler w p e)) p es"

text \<open>
  \<open>spaced_from d t es\<close>: the first interrupt of \<open>es\<close> is checked at least \<open>d\<close> after the
  timestamp \<open>t\<close>, and each later one at least \<open>d\<close> after the timestamp stored for the one
  before it, in the clock's wraparound arithmetic.
\<close>

fun spaced_from :: "int \<Rightarrow> int \<Rightarrow> edge list \<Rightarrow> bool" where
  "spaced_from d t [] = True"
| "spaced_from d t (e # es) = (d \<le> ticks_diff (now_check e) t \<and> spaced_from d (now_store e) es)"

text \<open>
  The clock readings of a sequence of interrupts, in the order they are taken. The clock is
  \<open>steady\<close> from a timestamp \<open>t\<close> on when the readings never decrease, start at or after
  \<open>t\<close> and stay below half the period, so that no difference wraps around. \<open>apart d a c\<close>:
  the interrupt \<open>c\<close> is checked at least \<open>d\<close> after \<open>a\<close> is.
\<close>

fun readings :: "edge list \<Rightarrow> int list" where
  "readings [] = []"
| "readings (e # es) = now_check e # now_store e # readings es"

definition steady :: "int \<Rightarrow> edge list \<Rightarrow> bool" where
  "steady t es \<longleftrightarrow>
     0 \<le> t \<and> sorted (t # readings es)
     \<and> list_all (\<lambda>x. x < TICKS_PERIOD div 2) (readings es)"

definition apart :: "int \<Rightarrow> edge \<Rightarrow> edge \<Rightarrow> bool" where
  "apart d a c \<longleftrightarrow> d \<le> now_check c - now_check a"

text \<open>
  An interrupt at tick \<open>t\<close> on a button with the given invert flag, while the signal reads
  pressed; the registered function returns, within the same millisecond.
\<close>

definition press :: "int \<Rightarrow> bool \<Rightarrow> edge" where
  "press t invert = \<lparr>now_check = t, level = (\<not> invert), cb_raises = False, now_store = t\<rparr>"

text \<open>The same interrupt when the registered function raises.\<close>

definition press_raising :: "int \<Rightarrow> bool \<Rightarrow> edge" where
  "press_raising t invert = (press t invert)\<lparr>cb_raises := True\<rparr>"

text \<open>
  The states the program reaches: from the empty one, by constructing buttons, handling
  interrupts, rebinding functions and resetting counters.
\<close>

inductive reachable :: "world \<Rightarrow> bool" where
  start: "reachable world0"
| construct:
    "reachable w \<Longrightarrow>
     reachable (snd (Button_init w p pin_repr name invert bouncetime function args kwargs))"
| interrupt: "reachable w \<Longrightarrow> reachable (snd (handler w p e))"
| rebind: "reachable w \<Longrightarrow> reachable (snd (set_function w self function args kwargs))"
| reset: "reachable w \<Longrightarrow> reachable (reset_count w self)"

text \<open>
  Every registered reference is an allocated button, and no pin and no button is registered
  twice. Every reachable state is so.
\<close>

definition wf_world :: "world \<Rightarrow> bool" where
  "wf_world w \<longleftrightarrow>
     distinct (kl_keys (roster w)) \<and> distinct (kl_values (roster w)) \<and>
     list_all (\<lambda>r. r < length (heap w)) (kl_values (roster w))"

subsection \<open>The script's wiring\<close>

text \<open>
  The registered functions of the script, by number, and two of its buttons, each as the
  state after constructing that button alone:
  \<^verbatim>\<open>btnG_off = Button(pin12, name="G_off", function=ledG_switch.off, bouncetime=200)\<close> and
  \<^verbatim>\<open>btnY_up = Button(pin15, name="Y_up", invert=True, bouncetime=200)\<close>.
\<close>

definition ledR_toggle_toggle :: callable where "ledR_toggle_toggle = 0"
definition ledG_switch_off :: callable where "ledG_switch_off = 1"
definition ledG_switch_on :: callable where "ledG_switch_on = 2"
definition ledY_vol_down :: callable where "ledY_vol_down = 3"
definition ledY_vol_up :: callable where "ledY_vol_up = 4"

definition btnG_off_world :: world where
  "btnG_off_world =
     snd (Button_init world0 12 ''Pin(GPIO12, mode=IN, pull=PULL_DOWN)'' (Some ''G_off'')
            False 200 (Some ledG_switch_off) VNone None)"

definition btnY_up_world :: world where
  "btnY_up_world =
     snd (Button_init world0 15 ''Pin(GPIO15, mode=IN, pull=PULL_UP)'' (Some ''Y_up'')
            True 200 None VNone None)"

text \<open>
  The script binds \<^verbatim>\<open>ledY_vol.up\<close> with \<^verbatim>\<open>{'opposite': btnY_down}\<close>. Bound alone, as
  in \<^verbatim>\<open>btnY_up.set_function(ledY_vol.up)\<close>, it is called without its opposite button and
  raises.
\<close>

definition btnY_up_unpaired_world :: world where
  "btnY_up_unpaired_world = snd (set_function btnY_up_world 0 (Some ledY_vol_up) VNone None)"

text \<open>A second button constructed on pin 12 while \<^verbatim>\<open>btnG_off\<close> holds it.\<close>

definition pin12_again_world :: world where
  "pin12_again_world =
     snd (Button_init btnG_off_world 12 ''Pin(GPIO12, mode=IN, pull=PULL_DOWN)'' None
            False 100 None VNone None)"

section \<open>Numbers\<close>

text \<open>
  \<^verbatim>\<open>Volume.u16value\<close> computes with \<^verbatim>\<open>**\<close>, \<^verbatim>\<open>/\<close>, \<^verbatim>\<open>-\<close>, \<^verbatim>\<open>*\<close> and \<^verbatim>\<open>int()\<close> on
  Python numbers. An \<^verbatim>\<open>int\<close> is an \<open>int\<close>. A \<^verbatim>\<open>float\<close> is a real number, plus or minus
  infinity, or NaN: rounding and the finite range of a double are left out, so a finite
  result is the exact one and never overflows. A \<^verbatim>\<open>complex\<close> result (a negative base to a
  fractional power) is kept without its value, which no later step looks at.
\<close>

datatype pyfloat = Fin real | PInf | NInf | NaN

datatype pynum = PInt int | PFloat pyfloat | PComplex

text \<open>
  \<^verbatim>\<open>float.__pow__\<close> on a finite base \<open>iv\<close>, in the order of its cases: a zero exponent,
  a NaN exponent, an infinite exponent, a zero base, a negative base to a fractional power.
\<close>

fun float_pow :: "real \<Rightarrow> pyfloat \<Rightarrow> exn + pynum" where
  "float_pow iv (Fin iw) =
     (if iw = 0 then Inr (PFloat (Fin 1))
      else if iv = 0 then (if iw < 0 then Inl ZeroDivisionError else Inr (PFloat (Fin 0)))
      else if iv < 0 \<and> iw \<noteq> of_int \<lfloor>iw\<rfloor> then Inr PComplex
      else Inr (PFloat (Fin (if iv < 0 then iv powi \<lfloor>iw\<rfloor> else iv powr iw))))"
| "float_pow iv NaN = Inr (PFloat (if iv = 1 then Fin 1 else NaN))"
| "float_pow iv PInf =
     Inr (PFloat (if \<bar>iv\<bar> = 1 then Fin 1 else if \<bar>iv\<bar> > 1 then PInf else Fin 0))"
| "float_pow iv NInf =
     Inr (PFloat (if \<bar>iv\<bar> = 1 then Fin 1 else if \<bar>iv\<bar> > 1 then Fin 0 else PInf))"

text \<open>
  \<^verbatim>\<open>base ** exp\<close> for an \<^verbatim>\<open>int\<close> base: an \<^verbatim>\<open>int\<close> for a non-negative \<^verbatim>\<open>int\<close> exponent,
  a \<^verbatim>\<open>float\<close> for a negative one, \<^verbatim>\<open>float.__pow__\<close> for a \<^verbatim>\<open>float\<close> exponent.
\<close>

fun py_pow :: "int \<Rightarrow> pynum \<Rightarrow> exn + pynum" where
  "py_pow b (PInt e) =
     (if 0 \<le> e then Inr (PInt (b ^ nat e))
      else if b = 0 then Inl ZeroDivisionError
      else Inr (PFloat (Fin (of_int b powi e))))"
| "py_pow b (PFloat f) = float_pow (of_int b) f"
| "py_pow b PComplex = Inr PComplex"

fun to_float :: "pynum \<Rightarrow> pyfloat" where
  "to_float (PInt i) = Fin (of_int i)"
| "to_float (PFloat f) = f"
| "to_float PComplex = NaN"

text \<open>\<^verbatim>\<open>x / y\<close> on floats, for a divisor that is not zero.\<close>

fun float_div :: "pyfloat \<Rightarrow> pyfloat \<Rightarrow> pyfloat" where
  "float_div NaN y = NaN"
| "float_div x NaN = NaN"
| "float_div (Fin p) (Fin q) = Fin (p / q)"
| "float_div (Fin p) y = Fin 0"
| "float_div x (Fin q) = (if (x = PInf) = (0 < q) then PInf else NInf)"
| "float_div x y = NaN"

text \<open>
  True division: a zero divisor raises whatever the dividend is; otherwise the result is a
  \<^verbatim>\<open>float\<close>, or a \<^verbatim>\<open>complex\<close> when an operand is one.
\<close>

definition py_truediv :: "pynum \<Rightarrow> pynum \<Rightarrow> exn + pynum" where
  "py_truediv a b =
     (if b = PInt 0 \<or> b = PFloat (Fin 0) then Inl ZeroDivisionError
      else if a = PComplex \<or> b = PComplex then Inr PComplex
      else Inr (PFloat (float_div (to_float a) (to_float b))))"

text \<open>\<^verbatim>\<open>1 - reg\<close> and \<^verbatim>\<open>65535 * reg\<close>.\<close>

fun one_minus :: "pynum \<Rightarrow> pynum" where
  "one_minus (PInt i) = PInt (1 - i)"
| "one_minus (PFloat (Fin r)) = PFloat (Fin (1 - r))"
| "one_minus (PFloat PInf) = PFloat NInf"
| "one_minus (PFloat NInf) = PFloat PInf"
| "one_minus (PFloat NaN) = PFloat NaN"
| "one_minus PComplex = PComplex"

fun times_65535 :: "pynum \<Rightarrow> pynum" where
  "times_65535 (PInt i) = PInt (65535 * i)"
| "times_65535 (PFloat (Fin r)) = PFloat (Fin (65535 * r))"
| "times_65535 (PFloat f) = PFloat f"
| "times_65535 PComplex = PComplex"

text \<open>\<^verbatim>\<open>int(x)\<close> truncates towards zero and rejects infinities, NaN and complex numbers.\<close>

fun py_int :: "pynum \<Rightarrow> exn + int" where
  "py_int (PInt i) = Inr i"
| "py_int (PFloat (Fin r)) = Inr (if 0 \<le> r then \<lfloor>r\<rfloor> else \<lceil>r\<rceil>)"
| "py_int (PFloat NaN) = Inl ValueError"
| "py_int (PFloat f) = Inl OverflowError"
| "py_int PComplex = Inl TypeError"


section \<open>Volume\<close>

text \<open>
  The \<^verbatim>\<open>curve\<close> argument by its Python type: an \<^verbatim>\<open>int\<close>, a \<^verbatim>\<open>float\<close>, a \<^verbatim>\<open>str\<close>, or
  an object of any other type (\<^verbatim>\<open>None\<close>, a \<^verbatim>\<open>bool\<close>, a list), which equals none of the
  four letters.
\<close>

datatype curve = CInt int | CFloat pyfloat | CStr string | COther

datatype pwm_call = Freq int | Duty_u16 int

record volume =
  v_min :: int
  v_max :: int
  v_range :: int
  v_vol :: int
  v_invert :: bool
  v_exp :: pynum

definition list_ABCD :: "string list" where
  "list_ABCD = [''A'', ''B'', ''C'', ''D'']"

definition curve_table :: "(string \<times> pynum) list" where
  "curve_table =
     [(''A'', PInt 2), (''B'', PInt 1), (''C'', PFloat (Fin (7 / 10))), (''D'', PInt 3)]"

text \<open>
  The first statement after the field assignments of \<^verbatim>\<open>Volume.__init__\<close>: a numeric
  \<^verbatim>\<open>curve\<close> is the exponent; anything else must pass the assertion, and the exponent is looked
  up with \<^verbatim>\<open>dict.get\<close>, which finds each of the four letters.
\<close>

definition curve_exp :: "curve \<Rightarrow> exn + pynum" where
  "curve_exp c =
     (case c of
        CInt i \<Rightarrow> Inr (PInt i)
      | CFloat f \<Rightarrow> Inr (PFloat f)
      | CStr s \<Rightarrow>
          (if s \<in> set list_ABCD
           then (case map_of curve_table s of Some ex \<Rightarrow> Inr ex | None \<Rightarrow> Inl TypeError)
           else Inl AssertionError)
      | COther \<Rightarrow> Inl AssertionError)"

definition u16value :: "volume \<Rightarrow> int \<Rightarrow> exn + int" where
  "u16value self val =
     (case py_pow val (v_exp self) of
        Inl x \<Rightarrow> Inl x
      | Inr a \<Rightarrow>
          (case py_pow (v_range self) (v_exp self) of
             Inl x \<Rightarrow> Inl x
           | Inr b \<Rightarrow>
               (case py_truediv a b of
                  Inl x \<Rightarrow> Inl x
                | Inr reg \<Rightarrow>
                    py_int (times_65535 (if v_invert self then one_minus reg else reg)))))"

text \<open>
  The PWM device is the list of calls made to it; it is taken to accept every frequency and
  duty. \<^verbatim>\<open>Volume.__init__\<close> returns the exception or the new instance, and the device as the
  constructor leaves it.
\<close>

definition Volume_init ::
  "pwm_call list \<Rightarrow> int \<Rightarrow> int \<Rightarrow> int \<Rightarrow> int \<Rightarrow> curve \<Rightarrow> bool
     \<Rightarrow> (exn + volume) \<times> pwm_call list" where
  "Volume_init pwm mn mx initial freq crv invert =
     (case curve_exp crv of
        Inl x \<Rightarrow> (Inl x, pwm)
      | Inr ex \<Rightarrow>
          (let self = \<lparr>v_min = mn, v_max = mx, v_range = mx - mn, v_vol = initial,
                       v_invert = invert, v_exp = ex\<rparr>;
               pwm1 = pwm @ [Freq freq]
           in case u16value self mn of
                Inl x \<Rightarrow> (Inl x, pwm1)
              | Inr d \<Rightarrow> (Inr self, pwm1 @ [Duty_u16 d])))"

text \<open>
  \<^verbatim>\<open>up\<close> and \<^verbatim>\<open>down\<close> take the opposite button (\<^verbatim>\<open>None\<close> by default, on which
  \<^verbatim>\<open>opposite.get_signal()\<close> raises) and the raw level of its pin at this moment. They return
  the result, the volume and the device.
\<close>

definition up ::
  "volume \<Rightarrow> button option \<Rightarrow> bool \<Rightarrow> pwm_call list \<Rightarrow> (exn + int) \<times> volume \<times> pwm_call list" where
  "up self opposite raw pwm =
     (let self1 = self\<lparr>v_vol := min (v_vol self + 1) (v_max self)\<rparr>
      in case opposite of
           None \<Rightarrow> (Inl AttributeError, self1, pwm)
         | Some ob \<Rightarrow>
             (let self2 = (if get_signal ob raw then self1\<lparr>v_vol := v_min self1\<rparr> else self1)
              in case u16value self2 (v_vol self2) of
                   Inl x \<Rightarrow> (Inl x, self2, pwm)
                 | Inr d \<Rightarrow> (Inr (v_vol self2), self2, pwm @ [Duty_u16 d])))"

definition down ::
  "volume \<Rightarrow> button option \<Rightarrow> bool \<Rightarrow> pwm_call list \<Rightarrow> (exn + int) \<times> volume \<times> pwm_call list" where
  "down self opposite raw pwm =
     (let self1 = self\<lparr>v_vol := max (v_vol self - 1) (v_min self)\<rparr>
      in case opposite of
           None \<Rightarrow> (Inl AttributeError, self1, pwm)
         | Some ob \<Rightarrow>
             (let self2 = (if get_signal ob raw then self1\<lparr>v_vol := v_min self1\<rparr> else self1)
              in case u16value self2 (v_vol self2) of
                   Inl x \<Rightarrow> (Inl x, self2, pwm)
                 | Inr d \<Rightarrow> (Inr (v_vol self2), self2, pwm @ [Duty_u16 d])))"

definition get_value :: "volume \<Rightarrow> int" where
  "get_value self = v_vol self"

subsection \<open>The script's volume\<close>

text \<open>
  \<^verbatim>\<open>ledY_vol = Volume(PWM(ledY), min=0, max=10, curve='A')\<close> as its constructor leaves it, and
  the instance \<^verbatim>\<open>btnY_down = Button(pin14, name="Y_down", invert=True, bouncetime=200)\<close>, the
  opposite button of \<^verbatim>\<open>ledY_vol.up\<close>.
\<close>

definition ledY_vol :: volume where
  "ledY_vol = \<lparr>v_min = 0, v_max = 10, v_range = 10, v_vol = 0, v_invert = False, v_exp = PInt 2\<rparr>"

definition btnY_down :: button where
  "btnY_down = \<lparr>b_pin = 14, b_invert = True, b_name = ''Y_down'', b_time_ticks = 0,
                 b_dtime = 200, b_count = 0, b_function = None, b_fargs = VNone,
                 b_fkwargs = None\<rparr>"

section \<open>Facts about KeyList\<close>

text \<open>
  \<^verbatim>\<open>_findkey\<close> finds the first entry with the key, so \<^verbatim>\<open>__getitem__\<close> is the lookup of
  an association list and \<^verbatim>\<open>__setitem__\<close> replaces the first entry with the key or appends.
\<close>

lemma findkey_from_absent:
  "key \<notin> fst ` set klist \<Longrightarrow> findkey_from i klist key = - 1"
  by (induction klist arbitrary: i) auto

lemma findkey_from_present:
  "key \<in> fst ` set klist \<Longrightarrow>
     \<exists>j < length klist. findkey_from i klist key = int (i + j) \<and> fst (klist ! j) = key
        \<and> (\<forall>j' < j. fst (klist ! j') \<noteq> key)"
proof (induction klist arbitrary: i)
  case Nil
  then show ?case by simp
next
  case (Cons item rest)
  show ?case
  proof (cases "fst item = key")
    case True
    then show ?thesis by (intro exI [of _ 0]) simp
  next
    case False
    with Cons.prems have "key \<in> fst ` set rest" by auto
    from Cons.IH [OF this, of "Suc i"] obtain j where j: "j < length rest"
      "findkey_from (Suc i) rest key = int (Suc i + j)" "fst (rest ! j) = key"
      "\<forall>j' < j. fst (rest ! j') \<noteq> key" by blast
    show ?thesis
    proof (intro exI [of _ "Suc j"] conjI allI impI)
      fix j' assume "j' < Suc j"
      then show "fst ((item # rest) ! j') \<noteq> key"
        using False j(4) by (cases j') auto
    qed (use False j in auto)
  qed
qed

lemma findkey_from_nonneg: "findkey_from i klist key = - 1 \<or> 0 \<le> findkey_from i klist key"
  by (induction klist arbitrary: i) auto

lemma kl_getitem_map_of: "kl_getitem klist key = map_of klist key"
proof (cases "key \<in> fst ` set klist")
  case False
  then have "map_of klist key = None" by (simp add: map_of_eq_None_iff)
  with False show ?thesis
    by (simp add: kl_getitem_def kl_findkey_def findkey_from_absent)
next
  case True
  from findkey_from_present [OF this, of 0] obtain j where j: "j < length klist"
    "findkey_from 0 klist key = int j" "fst (klist ! j) = key"
    "\<forall>j' < j. fst (klist ! j') \<noteq> key" by auto
  have "map_of klist key = Some (snd (klist ! j))"
    using j(1,3,4)
  proof (induction klist arbitrary: j)
    case Nil
    then show ?case by simp
  next
    case (Cons item rest)
    show ?case
    proof (cases j)
      case 0
      with Cons.prems show ?thesis by (cases item) auto
    next
      case (Suc k)
      with Cons.prems have "fst item \<noteq> key" by force
      moreover have "map_of rest key = Some (snd (rest ! k))"
        using Cons.prems Suc by (intro Cons.IH) force+
      ultimately show ?thesis using Suc by (cases item) auto
    qed
  qed
  then show ?thesis using j by (simp add: kl_getitem_def kl_findkey_def)
qed


lemma findkey_from_Suc:
  "findkey_from (Suc i) klist key =
     (if findkey_from i klist key = - 1 then - 1 else findkey_from i klist key + 1)"
  by (induction klist arbitrary: i) auto

lemma kl_setitem_Nil: "kl_setitem [] key v = [(key, v)]"
  by (simp add: kl_setitem_def kl_findkey_def)

lemma kl_setitem_Cons:
  "kl_setitem (item # rest) key v =
     (if fst item = key then (key, v) # rest else item # kl_setitem rest key v)"
proof (cases "fst item = key")
  case True
  then show ?thesis by (simp add: kl_setitem_def kl_findkey_def)
next
  case False
  show ?thesis
  proof (cases "findkey_from 0 rest key = - 1")
    case True
    with False show ?thesis
      by (simp add: kl_setitem_def kl_findkey_def findkey_from_Suc)
  next
    case absent: False
    with findkey_from_nonneg [of 0 rest key] have "0 \<le> findkey_from 0 rest key" by simp
    then obtain j where "findkey_from 0 rest key = int j"
      using nonneg_int_cases by blast
    with False show ?thesis
      by (simp add: kl_setitem_def kl_findkey_def findkey_from_Suc nat_add_distrib)
  qed
qed

lemma kl_keys_setitem:
  "kl_keys (kl_setitem klist key v) =
     (if key \<in> set (kl_keys klist) then kl_keys klist else kl_keys klist @ [key])"
  by (induction klist) (auto simp: kl_setitem_Nil kl_setitem_Cons kl_keys_def)

lemma distinct_keys_setitem:
  "distinct (kl_keys klist) \<Longrightarrow> distinct (kl_keys (kl_setitem klist key v))"
  by (simp add: kl_keys_setitem)

lemma map_of_setitem: "map_of (kl_setitem klist key v) = (map_of klist)(key \<mapsto> v)"
  by (induction klist) (auto simp: kl_setitem_Nil kl_setitem_Cons)

lemma kl_getitem_setitem:
  "kl_getitem (kl_setitem klist key v) k = (if k = key then Some v else kl_getitem klist k)"
  by (simp add: kl_getitem_map_of map_of_setitem)

lemma kl_values_setitem_subset:
  "set (kl_values (kl_setitem klist key v)) \<subseteq> insert v (set (kl_values klist))"
  by (induction klist) (auto simp: kl_setitem_Nil kl_setitem_Cons kl_values_def)

lemma kl_values_setitem_new: "v \<in> set (kl_values (kl_setitem klist key v))"
  by (induction klist) (auto simp: kl_setitem_Nil kl_setitem_Cons kl_values_def)

lemma distinct_values_setitem:
  "distinct (kl_values klist) \<Longrightarrow> v \<notin> set (kl_values klist)
     \<Longrightarrow> distinct (kl_values (kl_setitem klist key v))"
proof (induction klist)
  case Nil
  then show ?case by (simp add: kl_setitem_Nil kl_values_def)
next
  case (Cons item rest)
  then have "snd item \<notin> set (kl_values (kl_setitem rest key v))"
    using kl_values_setitem_subset [of rest key v] by (auto simp: kl_values_def)
  with Cons show ?case by (auto simp: kl_setitem_Cons kl_values_def)
qed

lemma old_value_dropped:
  "distinct (kl_values klist) \<Longrightarrow> map_of klist key = Some old \<Longrightarrow> v \<noteq> old
     \<Longrightarrow> old \<notin> set (kl_values (kl_setitem klist key v))"
proof (induction klist)
  case Nil
  then show ?case by simp
next
  case (Cons item rest)
  show ?case
  proof (cases "fst item = key")
    case True
    with Cons.prems show ?thesis
      by (cases item) (auto simp: kl_setitem_Cons kl_values_def)
  next
    case False
    with Cons.prems have rest: "map_of rest key = Some old" by (cases item) auto
    then have "(key, old) \<in> set rest" by (rule map_of_SomeD)
    then have "old \<in> set (kl_values rest)" by (force simp: kl_values_def)
    with Cons.prems have "snd item \<noteq> old" by (auto simp: kl_values_def)
    moreover have "old \<notin> set (kl_values (kl_setitem rest key v))"
      using Cons.prems rest by (intro Cons.IH) (auto simp: kl_values_def)
    ultimately show ?thesis using False by (auto simp: kl_setitem_Cons kl_values_def)
  qed
qed

section \<open>Facts about the wiring\<close>

lemma btnG_off_world_eq:
  "btnG_off_world =
     \<lparr>roster = [(12, 0)],
      heap = [\<lparr>b_pin = 12, b_invert = False, b_name = ''G_off'', b_time_ticks = 0,
               b_dtime = 200, b_count = 0, b_function = Some ledG_switch_off,
               b_fargs = VNone, b_fkwargs = None\<rparr>],
      calls = [], irq_log = [(12, IRQ_RISING)]\<rparr>"
  by (simp add: btnG_off_world_def Button_init_def world0_def put_myself_def
      kl_setitem_def kl_findkey_def)

lemma pin12_again_world_eq:
  "pin12_again_world =
     \<lparr>roster = [(12, 1)],
      heap = [\<lparr>b_pin = 12, b_invert = False, b_name = ''G_off'', b_time_ticks = 0,
               b_dtime = 200, b_count = 0, b_function = Some ledG_switch_off,
               b_fargs = VNone, b_fkwargs = None\<rparr>,
              \<lparr>b_pin = 12, b_invert = False, b_name = ''GPIO12'', b_time_ticks = 0,
               b_dtime = 100, b_count = 0, b_function = None,
               b_fargs = VNone, b_fkwargs = None\<rparr>],
      calls = [], irq_log = [(12, IRQ_RISING), (12, IRQ_RISING)]\<rparr>"
  by (simp add: pin12_again_world_def btnG_off_world_eq Button_init_def put_myself_def
      kl_setitem_def kl_findkey_def get_name_def)

lemma btnY_up_world_eq:
  "btnY_up_world =
     \<lparr>roster = [(15, 0)],
      heap = [\<lparr>b_pin = 15, b_invert = True, b_name = ''Y_up'', b_time_ticks = 0,
               b_dtime = 200, b_count = 0, b_function = None,
               b_fargs = VNone, b_fkwargs = None\<rparr>],
      calls = [], irq_log = [(15, IRQ_FALLING)]\<rparr>"
  by (simp add: btnY_up_world_def Button_init_def world0_def put_myself_def
      kl_setitem_def kl_findkey_def)

lemma btnY_up_unpaired_world_eq:
  "btnY_up_unpaired_world =
     \<lparr>roster = [(15, 0)],
      heap = [\<lparr>b_pin = 15, b_invert = True, b_name = ''Y_up'', b_time_ticks = 0,
               b_dtime = 200, b_count = 0, b_function = Some ledY_vol_up,
               b_fargs = VNone, b_fkwargs = None\<rparr>],
      calls = [], irq_log = [(15, IRQ_FALLING)]\<rparr>"
  by (simp add: btnY_up_unpaired_world_def btnY_up_world_eq set_function_def exist_myself_def
      kl_values_def upd_button_def)

lemmas eval_handler =
  handler_def get_myself_def kl_getitem_def kl_findkey_def ticks_diff_def TICKS_PERIOD_def
  signal_value_def upd_button_def press_def press_raising_def do_function_def
  call_with_myself_def truthy_kwargs_def accepts_def get_count_def

section \<open>Facts about the registry and the handler\<close>

text \<open>The handler never touches the registry, and only the button its pin resolves to.\<close>

lemma handler_roster: "roster (snd (handler w p e)) = roster w"
  by (simp add: handler_def upd_button_def Let_def split: option.splits sum.splits)

lemma handler_heap_length: "length (heap (snd (handler w p e))) = length (heap w)"
  by (simp add: handler_def upd_button_def Let_def split: option.splits sum.splits)

lemma handler_heap_other:
  "get_myself w p \<noteq> Some r \<Longrightarrow> heap (snd (handler w p e)) ! r = heap w ! r"
  by (auto simp: handler_def upd_button_def Let_def split: option.splits sum.splits)

lemma handler_get_myself: "get_myself (snd (handler w p e)) q = get_myself w q"
  by (simp add: get_myself_def handler_roster)

lemma handler_exist_myself: "exist_myself (snd (handler w p e)) r = exist_myself w r"
  by (simp add: exist_myself_def handler_roster)

lemma get_myself_exist: "get_myself w p = Some r \<Longrightarrow> exist_myself w r"
  by (force simp: get_myself_def exist_myself_def kl_getitem_map_of kl_values_def
      dest: map_of_SomeD)

lemma run_roster: "roster (run w pes) = roster w"
  by (induction pes arbitrary: w) (simp_all add: handler_roster)

lemma run_get_myself: "get_myself (run w pes) p = get_myself w p"
  by (simp add: get_myself_def run_roster)

lemma run_append: "run w (xs @ ys) = run (run w xs) ys"
  by (induction xs arbitrary: w) simp_all

lemma run_heap_length: "length (heap (run w pes)) = length (heap w)"
  by (induction pes arbitrary: w) (simp_all add: handler_heap_length)

lemma run_heap_unregistered:
  "\<not> exist_myself w r \<Longrightarrow> heap (run w pes) ! r = heap w ! r"
proof (induction pes arbitrary: w)
  case Nil
  then show ?case by simp
next
  case (Cons pe pes)
  from Cons.prems have "get_myself w (fst pe) \<noteq> Some r"
    using get_myself_exist by blast
  then have "heap (snd (handler w (fst pe) (snd pe))) ! r = heap w ! r"
    by (rule handler_heap_other)
  moreover have "\<not> exist_myself (snd (handler w (fst pe) (snd pe))) r"
    using Cons.prems by (simp add: handler_exist_myself)
  ultimately show ?case using Cons.IH by simp
qed

text \<open>What a successful construction leaves behind, and that a failed one leaves nothing.\<close>

lemma Button_init_Inr:
  assumes "Button_init w p pin_repr name invert bouncetime function args kwargs = (Inr new, w')"
  shows "new = length (heap w)"
    and "roster w' = kl_setitem (roster w) p new"
    and "\<exists>nm. heap w' = heap w @ [\<lparr>b_pin = p, b_invert = invert, b_name = nm, b_time_ticks = 0,
            b_dtime = bouncetime, b_count = 0, b_function = function, b_fargs = args,
            b_fkwargs = kwargs\<rparr>]"
    and "calls w' = calls w"
  using assms
  by (auto simp: Button_init_def put_myself_def Let_def split: sum.splits)

lemma Button_init_Inl:
  "Button_init w p pin_repr name invert bouncetime function args kwargs = (Inl x, w') \<Longrightarrow> w' = w"
  by (auto simp: Button_init_def Let_def split: sum.splits)

lemma fresh_button:
  assumes "Button_init w p pin_repr name invert bouncetime function args kwargs = (Inr r, w')"
  shows "get_myself w' p = Some r" and "r < length (heap w')"
    and "heap w' ! r = \<lparr>b_pin = p, b_invert = invert, b_name = b_name (heap w' ! r),
            b_time_ticks = 0, b_dtime = bouncetime, b_count = 0, b_function = function,
            b_fargs = args, b_fkwargs = kwargs\<rparr>"
proof -
  note facts = Button_init_Inr [OF assms]
  show "get_myself w' p = Some r"
    by (simp add: get_myself_def facts(2) kl_getitem_setitem)
  from facts(3) obtain nm where h: "heap w' = heap w @ [\<lparr>b_pin = p, b_invert = invert, b_name = nm,
      b_time_ticks = 0, b_dtime = bouncetime, b_count = 0, b_function = function,
      b_fargs = args, b_fkwargs = kwargs\<rparr>]" by blast
  then show "r < length (heap w')" by (simp add: facts(1))
  from h show "heap w' ! r = \<lparr>b_pin = p, b_invert = invert, b_name = b_name (heap w' ! r),
            b_time_ticks = 0, b_dtime = bouncetime, b_count = 0, b_function = function,
            b_fargs = args, b_fkwargs = kwargs\<rparr>"
    by (simp add: facts(1))
qed

text \<open>Every state the program reaches is well-formed.\<close>

lemma wf_world0: "wf_world world0"
  by (simp add: wf_world_def world0_def kl_keys_def kl_values_def)

lemma wf_Button_init:
  assumes "wf_world w"
  shows "wf_world (snd (Button_init w p pin_repr name invert bouncetime function args kwargs))"
proof (cases "fst (Button_init w p pin_repr name invert bouncetime function args kwargs)")
  case (Inl x)
  then have "snd (Button_init w p pin_repr name invert bouncetime function args kwargs) = w"
    using Button_init_Inl [of w p pin_repr name invert bouncetime "function" args kwargs x]
    by (metis prod.collapse)
  with assms show ?thesis by simp
next
  case (Inr new)
  define w' where "w' = snd (Button_init w p pin_repr name invert bouncetime function args kwargs)"
  with Inr have eq: "Button_init w p pin_repr name invert bouncetime function args kwargs = (Inr new, w')"
    by (metis prod.collapse)
  note facts = Button_init_Inr [OF eq]
  from assms have fresh: "new \<notin> set (kl_values (roster w))"
    by (auto simp: wf_world_def facts(1) list_all_iff)
  have len: "length (heap w') = Suc (length (heap w))"
    using facts(3) by auto
  have "distinct (kl_keys (roster w'))"
    using assms by (simp add: facts(2) wf_world_def distinct_keys_setitem)
  moreover have "distinct (kl_values (roster w'))"
    using assms fresh by (simp add: facts(2) wf_world_def distinct_values_setitem)
  moreover have "list_all (\<lambda>r. r < length (heap w')) (kl_values (roster w'))"
  proof -
    have "r < length (heap w')" if "r \<in> set (kl_values (roster w'))" for r
    proof -
      from that have "r = new \<or> r \<in> set (kl_values (roster w))"
        using kl_values_setitem_subset [of "roster w" p new] by (auto simp: facts(2))
      with assms show ?thesis
        by (auto simp: facts(1) len wf_world_def list_all_iff)
    qed
    then show ?thesis by (simp add: list_all_iff)
  qed
  ultimately show ?thesis by (simp add: wf_world_def w'_def)
qed

lemma wf_handler: "wf_world w \<Longrightarrow> wf_world (snd (handler w p e))"
  by (simp add: wf_world_def handler_roster handler_heap_length)

lemma wf_set_function: "wf_world w \<Longrightarrow> wf_world (snd (set_function w self f a k))"
  by (simp add: wf_world_def set_function_def upd_button_def)

lemma wf_run: "wf_world w \<Longrightarrow> wf_world (run w pes)"
  by (induction pes arbitrary: w) (simp_all add: wf_handler)

lemma wf_reset_count: "wf_world w \<Longrightarrow> wf_world (reset_count w self)"
  by (simp add: wf_world_def reset_count_def upd_button_def)

lemma reachable_wf: "reachable w \<Longrightarrow> wf_world w"
  by (induction rule: reachable.induct)
    (simp_all add: wf_world0 wf_Button_init wf_handler wf_set_function wf_reset_count)

text \<open>The three ways through the handler.\<close>

lemma handler_bounce:
  "get_myself w p = Some r \<Longrightarrow>
   ticks_diff (now_check e) (b_time_ticks (heap w ! r)) < b_dtime (heap w ! r) \<Longrightarrow>
   handler w p e = (Bounce, w)"
  by (simp add: handler_def)

lemma handler_ghost:
  "get_myself w p = Some r \<Longrightarrow>
   \<not> ticks_diff (now_check e) (b_time_ticks (heap w ! r)) < b_dtime (heap w ! r) \<Longrightarrow>
   \<not> signal_value (heap w ! r) (level e) \<Longrightarrow>
   handler w p e = (Ghost, w)"
  by (simp add: handler_def)

text \<open>Past both checks the counter is incremented, whatever happens next.\<close>

lemma handler_fire:
  assumes "get_myself w p = Some r" and "r < length (heap w)"
    and "\<not> ticks_diff (now_check e) (b_time_ticks (heap w ! r)) < b_dtime (heap w ! r)"
    and "signal_value (heap w ! r) (level e)"
  shows "b_count (heap (snd (handler w p e)) ! r) = b_count (heap w ! r) + 1"
    and "b_dtime (heap (snd (handler w p e)) ! r) = b_dtime (heap w ! r)"
    and "fst (handler w p e) = Pushed \<or> (\<exists>x. fst (handler w p e) = Raised x)"
    and "fst (handler w p e) = Pushed \<Longrightarrow> b_time_ticks (heap (snd (handler w p e)) ! r) = now_store e"
  using assms
  by (auto simp: handler_def upd_button_def Let_def split: option.splits sum.splits)

lemma accepts_iff:
  assumes "get_myself w p = Some r" and "r < length (heap w)"
  shows "accepts w p e \<longleftrightarrow>
     \<not> ticks_diff (now_check e) (b_time_ticks (heap w ! r)) < b_dtime (heap w ! r)
     \<and> signal_value (heap w ! r) (level e)"
proof (cases "ticks_diff (now_check e) (b_time_ticks (heap w ! r)) < b_dtime (heap w ! r)")
  case True
  with assms show ?thesis by (simp add: accepts_def handler_bounce get_count_def)
next
  case False
  show ?thesis
  proof (cases "signal_value (heap w ! r) (level e)")
    case True
    with False assms show ?thesis
      by (simp add: accepts_def get_count_def handler_fire(1))
  next
    case ghost: False
    with False assms show ?thesis by (simp add: accepts_def handler_ghost get_count_def)
  qed
qed

lemma ticks_diff_small:
  "0 \<le> a - b \<Longrightarrow> a - b < 2 ^ 29 \<Longrightarrow> ticks_diff a b = a - b"
  by (simp add: ticks_diff_def TICKS_PERIOD_def)

lemma ticks_diff_shift:
  "0 \<le> d \<Longrightarrow> d < 2 ^ 29 \<Longrightarrow> ticks_diff (t + d) t = d"
  by (simp add: ticks_diff_def TICKS_PERIOD_def)

lemma press_sel:
  "now_check (press t invert) = t" "now_store (press t invert) = t"
  "level (press t invert) = (\<not> invert)" "cb_raises (press t invert) = False"
  by (simp_all add: press_def)

lemma handler_fire_invert:
  assumes "get_myself w p = Some r" and "r < length (heap w)"
  shows "b_invert (heap (snd (handler w p e)) ! r) = b_invert (heap w ! r)"
  using assms
  by (auto simp: handler_def upd_button_def Let_def split: option.splits sum.splits)

text \<open>
  As long as no run of the handler ends in an exception, every accepted interrupt stores its
  timestamp, and the next accepted one has passed the debounce check against it.
\<close>

lemma accepted_spaced:
  assumes "get_myself w p = Some r" and "r < length (heap w)"
    and "\<forall>x. Raised x \<notin> set (outcomes w p es)"
  shows "spaced_from (b_dtime (heap w ! r)) (b_time_ticks (heap w ! r)) (accepted w p es)"
  using assms
proof (induction es arbitrary: w)
  case Nil
  then show ?case by simp
next
  case (Cons e es)
  let ?w' = "snd (handler w p e)"
  have reg: "get_myself ?w' p = Some r" using Cons.prems(1) by (simp add: handler_get_myself)
  have len: "r < length (heap ?w')" using Cons.prems(2) by (simp add: handler_heap_length)
  have rest: "\<forall>x. Raised x \<notin> set (outcomes ?w' p es)" using Cons.prems(3) by simp
  note IH = Cons.IH [OF reg len rest]
  show ?case
  proof (cases "accepts w p e")
    case False
    then have "ticks_diff (now_check e) (b_time_ticks (heap w ! r)) < b_dtime (heap w ! r)
        \<or> \<not> signal_value (heap w ! r) (level e)"
      using Cons.prems(1,2) by (simp add: accepts_iff)
    then have "handler w p e = (Bounce, w) \<or> handler w p e = (Ghost, w)"
      using handler_bounce [OF Cons.prems(1)] handler_ghost [OF Cons.prems(1)] by blast
    then have "?w' = w" by auto
    with IH False show ?thesis by simp
  next
    case True
    then have pass: "\<not> ticks_diff (now_check e) (b_time_ticks (heap w ! r)) < b_dtime (heap w ! r)"
      and pressed: "signal_value (heap w ! r) (level e)"
      using Cons.prems(1,2) by (simp_all add: accepts_iff)
    note fire = handler_fire [OF Cons.prems(1,2) pass pressed]
    from Cons.prems(3) have "\<forall>x. fst (handler w p e) \<noteq> Raised x" by auto
    with fire(3) have "fst (handler w p e) = Pushed" by blast
    then have "b_time_ticks (heap ?w' ! r) = now_store e" by (rule fire(4))
    with IH fire(2) pass True show ?thesis by simp
  qed
qed

lemma steady_Cons:
  assumes "steady t (e # es)"
  shows "steady t es" and "steady (now_store e) es"
    and "t \<le> now_check e" and "now_check e \<le> now_store e"
    and "0 \<le> now_check e" and "now_check e < 2 ^ 29"
  using assms by (auto simp: steady_def TICKS_PERIOD_def)

lemma accepted_after:
  assumes "get_myself w p = Some r" and "r < length (heap w)"
    and "\<forall>x. Raised x \<notin> set (outcomes w p es)"
    and "steady (b_time_ticks (heap w ! r)) es"
  shows "\<forall>c \<in> set (accepted w p es).
           b_dtime (heap w ! r) \<le> now_check c - b_time_ticks (heap w ! r)"
  using assms
proof (induction es arbitrary: w)
  case Nil
  then show ?case by simp
next
  case (Cons e es)
  let ?w' = "snd (handler w p e)"
  let ?t = "b_time_ticks (heap w ! r)"
  let ?d = "b_dtime (heap w ! r)"
  note st = steady_Cons [OF Cons.prems(4)]
  have reg: "get_myself ?w' p = Some r" using Cons.prems(1) by (simp add: handler_get_myself)
  have len: "r < length (heap ?w')" using Cons.prems(2) by (simp add: handler_heap_length)
  have rest: "\<forall>x. Raised x \<notin> set (outcomes ?w' p es)" using Cons.prems(3) by simp
  show ?case
  proof (cases "accepts w p e")
    case False
    then have "ticks_diff (now_check e) ?t < ?d \<or> \<not> signal_value (heap w ! r) (level e)"
      using Cons.prems(1,2) by (simp add: accepts_iff)
    then have "handler w p e = (Bounce, w) \<or> handler w p e = (Ghost, w)"
      using handler_bounce [OF Cons.prems(1)] handler_ghost [OF Cons.prems(1)] by blast
    then have same: "?w' = w" by auto
    from Cons.IH [OF reg len rest] st(1) same False show ?thesis by simp
  next
    case True
    then have pass: "\<not> ticks_diff (now_check e) ?t < ?d"
      and pressed: "signal_value (heap w ! r) (level e)"
      using Cons.prems(1,2) by (simp_all add: accepts_iff)
    note fire = handler_fire [OF Cons.prems(1,2) pass pressed]
    from Cons.prems(3) have "\<forall>x. fst (handler w p e) \<noteq> Raised x" by auto
    with fire(3) have "fst (handler w p e) = Pushed" by blast
    then have stamp: "b_time_ticks (heap ?w' ! r) = now_store e" by (rule fire(4))
    from Cons.prems(4) have "0 \<le> ?t" by (simp add: steady_def)
    with st(3,6) have "ticks_diff (now_check e) ?t = now_check e - ?t"
      by (intro ticks_diff_small) auto
    with pass have first: "?d \<le> now_check e - ?t" by simp
    have "\<forall>c \<in> set (accepted ?w' p es). ?d \<le> now_check c - now_store e"
      using Cons.IH [OF reg len rest] st(2) stamp fire(2) by simp
    with st(3,4) have "\<forall>c \<in> set (accepted ?w' p es). ?d \<le> now_check c - ?t" by fastforce
    with first True show ?thesis by simp
  qed
qed

lemma accepted_apart:
  assumes "get_myself w p = Some r" and "r < length (heap w)"
    and "\<forall>x. Raised x \<notin> set (outcomes w p es)"
    and "steady (b_time_ticks (heap w ! r)) es"
  shows "sorted_wrt (apart (b_dtime (heap w ! r))) (accepted w p es)"
  using assms
proof (induction es arbitrary: w)
  case Nil
  then show ?case by simp
next
  case (Cons e es)
  let ?w' = "snd (handler w p e)"
  let ?t = "b_time_ticks (heap w ! r)"
  let ?d = "b_dtime (heap w ! r)"
  note st = steady_Cons [OF Cons.prems(4)]
  have reg: "get_myself ?w' p = Some r" using Cons.prems(1) by (simp add: handler_get_myself)
  have len: "r < length (heap ?w')" using Cons.prems(2) by (simp add: handler_heap_length)
  have rest: "\<forall>x. Raised x \<notin> set (outcomes ?w' p es)" using Cons.prems(3) by simp
  show ?case
  proof (cases "accepts w p e")
    case False
    then have "ticks_diff (now_check e) ?t < ?d \<or> \<not> signal_value (heap w ! r) (level e)"
      using Cons.prems(1,2) by (simp add: accepts_iff)
    then have "handler w p e = (Bounce, w) \<or> handler w p e = (Ghost, w)"
      using handler_bounce [OF Cons.prems(1)] handler_ghost [OF Cons.prems(1)] by blast
    then have same: "?w' = w" by auto
    from Cons.IH [OF reg len rest] st(1) same False show ?thesis by simp
  next
    case True
    then have pass: "\<not> ticks_diff (now_check e) ?t < ?d"
      and pressed: "signal_value (heap w ! r) (level e)"
      using Cons.prems(1,2) by (simp_all add: accepts_iff)
    note fire = handler_fire [OF Cons.prems(1,2) pass pressed]
    from Cons.prems(3) have "\<forall>x. fst (handler w p e) \<noteq> Raised x" by auto
    with fire(3) have "fst (handler w p e) = Pushed" by blast
    then have stamp: "b_time_ticks (heap ?w' ! r) = now_store e" by (rule fire(4))
    have st': "steady (b_time_ticks (heap ?w' ! r)) es" using st(2) stamp by simp
    have "\<forall>c \<in> set (accepted ?w' p es). ?d \<le> now_check c - now_store e"
      using accepted_after [OF reg len rest st'] stamp fire(2) by simp
    with st(4) have later: "\<forall>c \<in> set (accepted ?w' p es). apart ?d e c"
      by (fastforce simp: apart_def)
    have "sorted_wrt (apart ?d) (accepted ?w' p es)"
      using Cons.IH [OF reg len rest st'] fire(2) by simp
    with later True show ?thesis by simp
  qed
qed

section \<open>Facts about Volume\<close>





section \<open>The claims\<close>

subsection \<open>Debouncing\<close>

text \<open>
  Claim C1, as amended. Take a button registered for a pin. Whenever the wraparound-safe time
  elapsed since its stored timestamp is strictly less than its debounce interval, the handler
  discards the interrupt: it returns at the debounce check and leaves the whole state as it
  was, so the counter is not incremented and no call is made. Over every sequence of
  interrupts on the pin in which no run of the handler ends in an exception, each accepted
  interrupt is checked at least the debounce interval after the timestamp stored for the
  accepted interrupt before it; and when the clock is steady, any two accepted interrupts are
  at least the interval apart.
\<close>

theorem debounce_spacing:
  assumes "get_myself w p = Some r" and "r < length (heap w)"
  shows "(ticks_diff (now_check e) (b_time_ticks (heap w ! r)) < b_dtime (heap w ! r)
          \<longrightarrow> handler w p e = (Bounce, w) \<and> \<not> accepts w p e)
       \<and> ((\<forall>x. Raised x \<notin> set (outcomes w p es))
          \<longrightarrow> spaced_from (b_dtime (heap w ! r)) (b_time_ticks (heap w ! r)) (accepted w p es)
              \<and> (steady (b_time_ticks (heap w ! r)) es
                 \<longrightarrow> sorted_wrt (apart (b_dtime (heap w ! r))) (accepted w p es)))"
  using assms accepted_spaced accepted_apart handler_bounce by (simp add: accepts_iff)

theorem debounce_spacing_witness:
  "get_myself btnY_up_world 15 = Some 0 \<and> 0 < length (heap btnY_up_world)
   \<and> ticks_diff (now_check (press 50 True)) (b_time_ticks (heap btnY_up_world ! 0))
       < b_dtime (heap btnY_up_world ! 0)
   \<and> handler btnY_up_world 15 (press 50 True) = (Bounce, btnY_up_world)
   \<and> \<not> accepts btnY_up_world 15 (press 50 True)
   \<and> (\<forall>x. Raised x \<notin> set (outcomes btnY_up_world 15
                [press 1000 True, press 1100 True, press 1300 True]))
   \<and> steady (b_time_ticks (heap btnY_up_world ! 0))
        [press 1000 True, press 1100 True, press 1300 True]
   \<and> accepted btnY_up_world 15 [press 1000 True, press 1100 True, press 1300 True]
       = [press 1000 True, press 1300 True]
   \<and> spaced_from (b_dtime (heap btnY_up_world ! 0)) (b_time_ticks (heap btnY_up_world ! 0))
       (accepted btnY_up_world 15 [press 1000 True, press 1100 True, press 1300 True])
   \<and> sorted_wrt (apart (b_dtime (heap btnY_up_world ! 0)))
       (accepted btnY_up_world 15 [press 1000 True, press 1100 True, press 1300 True])"
  using debounce_spacing [of btnY_up_world 15 0 "press 50 True"
      "[press 1000 True, press 1100 True, press 1300 True]"]
  by (simp add: btnY_up_world_eq eval_handler steady_def)

text \<open>
  Without the proviso the spacing fails. When the registered function raises, the handler has
  incremented the counter and never reaches the line that stores the timestamp. With
  \<^verbatim>\<open>ledY_vol.up\<close> bound without its opposite button, the interrupts at ticks 1000 and
  1001 both increment the counter of a button whose debounce interval is 200.
\<close>

theorem raising_callback_breaks_spacing:
  "fst (up ledY_vol None False []) = Inl AttributeError
   \<and> outcomes btnY_up_unpaired_world 15 [press_raising 1000 True, press_raising 1001 True]
     = [Raised CallbackError, Raised CallbackError]
   \<and> accepted btnY_up_unpaired_world 15 [press_raising 1000 True, press_raising 1001 True]
     = [press_raising 1000 True, press_raising 1001 True]
   \<and> get_count (run btnY_up_unpaired_world
        [(15, press_raising 1000 True), (15, press_raising 1001 True)]) 0 = 2
   \<and> ticks_diff (now_check (press_raising 1001 True)) (now_check (press_raising 1000 True)) = 1
   \<and> b_dtime (heap btnY_up_unpaired_world ! 0) = 200
   \<and> steady (b_time_ticks (heap btnY_up_unpaired_world ! 0))
        [press_raising 1000 True, press_raising 1001 True]
   \<and> \<not> sorted_wrt (apart (b_dtime (heap btnY_up_unpaired_world ! 0)))
        (accepted btnY_up_unpaired_world 15 [press_raising 1000 True, press_raising 1001 True])"
  by (simp add: btnY_up_unpaired_world_eq eval_handler steady_def apart_def up_def)

subsection \<open>Ghost rejection\<close>

text \<open>
  Claim C2. An interrupt that passes the debounce check while the re-read pin level is not
  the pressed one (the raw level equals the invert flag: low on a plain button, high on an
  inverted one) ends at the ghost return and leaves the whole state as it was: the press
  counter is unchanged and no call is made.
\<close>

theorem ghost_check_discards:
  assumes "get_myself w p = Some r"
    and "\<not> ticks_diff (now_check e) (b_time_ticks (heap w ! r)) < b_dtime (heap w ! r)"
    and "level e = b_invert (heap w ! r)"
  shows "handler w p e = (Ghost, w)"
  using assms by (simp add: handler_def signal_value_def)

theorem ghost_check_discards_witness:
  "get_myself btnG_off_world 12 = Some 0
   \<and> \<not> ticks_diff 1000 (b_time_ticks (heap btnG_off_world ! 0)) < b_dtime (heap btnG_off_world ! 0)
   \<and> False = b_invert (heap btnG_off_world ! 0)
   \<and> handler btnG_off_world 12 \<lparr>now_check = 1000, level = False, cb_raises = False, now_store = 1000\<rparr>
       = (Ghost, btnG_off_world)"
  using ghost_check_discards [of btnG_off_world 12 0
      "\<lparr>now_check = 1000, level = False, cb_raises = False, now_store = 1000\<rparr>"]
  by (simp add: btnG_off_world_eq get_myself_def kl_getitem_def kl_findkey_def
      ticks_diff_def TICKS_PERIOD_def)

subsection \<open>Re-registration\<close>

text \<open>
  The registry after a second construction on a pin, and the handler on that pin from then
  on: all three of its ways are decided on the new button's record, and the old record stays
  as it was.
\<close>

lemma replaced_registry:
  assumes "reachable w" and "get_myself w p = Some old"
    and "Button_init w p pin_repr name invert bouncetime function args kwargs = (Inr new, w')"
  shows "kl_keys (roster w') = kl_keys (roster w)" and "distinct (kl_keys (roster w'))"
    and "get_myself w' p = Some new" and "\<not> exist_myself w' old" and "exist_myself w' new"
    and "heap w' ! old = heap w ! old"
proof -
  from assms(1) have wf: "wf_world w" by (rule reachable_wf)
  note facts = Button_init_Inr [OF assms(3)]
  from assms(2) have old_reg: "old \<in> set (kl_values (roster w))"
    using get_myself_exist by (simp add: exist_myself_def)
  with wf have old_lt: "old < length (heap w)"
    by (auto simp: wf_world_def list_all_iff)
  then have neq: "new \<noteq> old" by (simp add: facts(1))
  from assms(2) have "p \<in> set (kl_keys (roster w))"
    by (force simp: get_myself_def kl_getitem_map_of kl_keys_def dest: map_of_SomeD)
  then show keys: "kl_keys (roster w') = kl_keys (roster w)"
    by (simp add: facts(2) kl_keys_setitem)
  show "distinct (kl_keys (roster w'))"
    using wf keys by (simp add: wf_world_def)
  show "get_myself w' p = Some new"
    by (simp add: get_myself_def facts(2) kl_getitem_setitem)
  show "\<not> exist_myself w' old"
    using wf assms(2) neq
    by (simp add: exist_myself_def facts(2) wf_world_def get_myself_def kl_getitem_map_of
        old_value_dropped)
  show "exist_myself w' new"
    by (simp add: exist_myself_def facts(2) kl_values_setitem_new)
  show "heap w' ! old = heap w ! old"
    using facts(3) old_lt by (auto simp: nth_append)
qed

lemma replaced_handler:
  assumes "reachable w" and "get_myself w p = Some old"
    and "Button_init w p pin_repr name invert bouncetime function args kwargs = (Inr new, w')"
  shows "(ticks_diff (now_check e) (b_time_ticks (heap (run w' pes) ! new))
            < b_dtime (heap (run w' pes) ! new)
          \<longrightarrow> handler (run w' pes) p e = (Bounce, run w' pes))
       \<and> (\<not> ticks_diff (now_check e) (b_time_ticks (heap (run w' pes) ! new))
            < b_dtime (heap (run w' pes) ! new)
          \<and> \<not> signal_value (heap (run w' pes) ! new) (level e)
          \<longrightarrow> handler (run w' pes) p e = (Ghost, run w' pes))
       \<and> (\<not> ticks_diff (now_check e) (b_time_ticks (heap (run w' pes) ! new))
            < b_dtime (heap (run w' pes) ! new)
          \<and> signal_value (heap (run w' pes) ! new) (level e)
          \<longrightarrow> get_count (snd (handler (run w' pes) p e)) new = get_count (run w' pes) new + 1
              \<and> (fst (handler (run w' pes) p e) = Pushed
                  \<or> (\<exists>x. fst (handler (run w' pes) p e) = Raised x))
              \<and> heap (snd (handler (run w' pes) p e)) ! old = heap w ! old)"
proof -
  let ?v = "run w' pes"
  note fresh = fresh_button [OF assms(3)]
  note registry = replaced_registry [OF assms]
  have reg: "get_myself ?v p = Some new" using fresh(1) by (simp add: run_get_myself)
  have len: "new < length (heap ?v)" using fresh(2) by (simp add: run_heap_length)
  have old_after: "heap (snd (handler ?v p e)) ! old = heap w ! old"
    using run_heap_unregistered [OF registry(4), of "pes @ [(p, e)]"] registry(6)
    by (simp add: run_append)
  show ?thesis
    using handler_bounce [OF reg] handler_ghost [OF reg] handler_fire(1,3) [OF reg len] old_after
    by (auto simp: get_count_def)
qed

text \<open>
  Claim C3. In every state the program reaches, constructing a second button on a pin that
  a registered button holds replaces the entry in place: the registry keeps the keys it had,
  each of them once. Right after, the old button fails the existence check and the new one
  passes it. Whatever interrupts follow, on any pins, the pin resolves to the new button and
  the old one stays expired; and the handler of every further interrupt on the pin works on
  the new button: it bounces and ghosts on the new button's timestamp, interval and signal,
  past both checks it increments the new button's counter, and it leaves the old button's
  record as it was.
\<close>

theorem second_button_replaces:
  assumes "reachable w" and "get_myself w p = Some old"
    and "Button_init w p pin_repr name invert bouncetime function args kwargs = (Inr new, w')"
  shows "kl_keys (roster w') = kl_keys (roster w) \<and> distinct (kl_keys (roster w'))
       \<and> get_myself w' p = Some new
       \<and> \<not> exist_myself w' old
       \<and> exist_myself w' new
       \<and> (\<forall>pes. get_myself (run w' pes) p = Some new
                \<and> \<not> exist_myself (run w' pes) old
                \<and> heap (run w' pes) ! old = heap w ! old)
       \<and> (\<forall>pes e.
            (ticks_diff (now_check e) (b_time_ticks (heap (run w' pes) ! new))
                < b_dtime (heap (run w' pes) ! new)
              \<longrightarrow> handler (run w' pes) p e = (Bounce, run w' pes))
          \<and> (\<not> ticks_diff (now_check e) (b_time_ticks (heap (run w' pes) ! new))
                < b_dtime (heap (run w' pes) ! new)
              \<and> \<not> signal_value (heap (run w' pes) ! new) (level e)
              \<longrightarrow> handler (run w' pes) p e = (Ghost, run w' pes))
          \<and> (\<not> ticks_diff (now_check e) (b_time_ticks (heap (run w' pes) ! new))
                < b_dtime (heap (run w' pes) ! new)
              \<and> signal_value (heap (run w' pes) ! new) (level e)
              \<longrightarrow> get_count (snd (handler (run w' pes) p e)) new
                    = get_count (run w' pes) new + 1
                  \<and> (fst (handler (run w' pes) p e) = Pushed
                      \<or> (\<exists>x. fst (handler (run w' pes) p e) = Raised x))
                  \<and> heap (snd (handler (run w' pes) p e)) ! old = heap w ! old))"
proof -
  note registry = replaced_registry [OF assms]
  have "get_myself (run w' pes) p = Some new \<and> \<not> exist_myself (run w' pes) old
      \<and> heap (run w' pes) ! old = heap w ! old" for pes
    using registry(3,4,6)
    by (simp add: run_get_myself run_heap_unregistered exist_myself_def run_roster)
  with registry(1,2,3,4,5) replaced_handler [OF assms] show ?thesis by blast
qed

theorem second_button_replaces_witness:
  "reachable btnG_off_world \<and> get_myself btnG_off_world 12 = Some 0
   \<and> Button_init btnG_off_world 12 ''Pin(GPIO12, mode=IN, pull=PULL_DOWN)'' None False 100
        None VNone None = (Inr 1, pin12_again_world)
   \<and> kl_keys (roster pin12_again_world) = [12]
   \<and> get_myself pin12_again_world 12 = Some 1
   \<and> \<not> exist_myself pin12_again_world 0
   \<and> exist_myself pin12_again_world 1
   \<and> (\<forall>pes. get_myself (run pin12_again_world pes) 12 = Some 1
            \<and> \<not> exist_myself (run pin12_again_world pes) 0
            \<and> heap (run pin12_again_world pes) ! 0 = heap btnG_off_world ! 0)
   \<and> \<not> ticks_diff (now_check (press 1000 False))
          (b_time_ticks (heap (run pin12_again_world []) ! 1))
        < b_dtime (heap (run pin12_again_world []) ! 1)
   \<and> signal_value (heap (run pin12_again_world []) ! 1) (level (press 1000 False))
   \<and> get_count (snd (handler (run pin12_again_world []) 12 (press 1000 False))) 1
       = get_count (run pin12_again_world []) 1 + 1
   \<and> fst (handler (run pin12_again_world []) 12 (press 1000 False)) = Pushed
   \<and> get_count (snd (handler (run pin12_again_world []) 12 (press 1000 False))) 0 = 0
   \<and> handler pin12_again_world 12 (press 50 False) = (Bounce, pin12_again_world)"
proof -
  have wf: "reachable btnG_off_world"
    unfolding btnG_off_world_def by (intro reachable.construct reachable.start)
  have reg: "get_myself btnG_off_world 12 = Some 0"
    by (simp add: btnG_off_world_eq get_myself_def kl_getitem_def kl_findkey_def)
  have init: "Button_init btnG_off_world 12 ''Pin(GPIO12, mode=IN, pull=PULL_DOWN)'' None False 100
        None VNone None = (Inr 1, pin12_again_world)"
    by (simp add: pin12_again_world_def btnG_off_world_eq Button_init_def get_name_def Let_def)
  have keys: "kl_keys (roster pin12_again_world) = [12]"
    by (simp add: pin12_again_world_eq kl_keys_def)
  have pass: "\<not> ticks_diff (now_check (press 1000 False))
          (b_time_ticks (heap (run pin12_again_world []) ! 1))
        < b_dtime (heap (run pin12_again_world []) ! 1)"
    and pressed: "signal_value (heap (run pin12_again_world []) ! 1) (level (press 1000 False))"
    and pushed: "fst (handler (run pin12_again_world []) 12 (press 1000 False)) = Pushed"
    and old0: "get_count (snd (handler (run pin12_again_world []) 12 (press 1000 False))) 0 = 0"
    and bounce: "handler pin12_again_world 12 (press 50 False) = (Bounce, pin12_again_world)"
    by (simp_all add: pin12_again_world_eq eval_handler)
  note repl = second_button_replaces [OF wf reg init]
  from repl wf reg init keys have first: "reachable btnG_off_world \<and> get_myself btnG_off_world 12 = Some 0
   \<and> Button_init btnG_off_world 12 ''Pin(GPIO12, mode=IN, pull=PULL_DOWN)'' None False 100
        None VNone None = (Inr 1, pin12_again_world)
   \<and> kl_keys (roster pin12_again_world) = [12]
   \<and> get_myself pin12_again_world 12 = Some 1
   \<and> \<not> exist_myself pin12_again_world 0
   \<and> exist_myself pin12_again_world 1
   \<and> (\<forall>pes. get_myself (run pin12_again_world pes) 12 = Some 1
            \<and> \<not> exist_myself (run pin12_again_world pes) 0
            \<and> heap (run pin12_again_world pes) ! 0 = heap btnG_off_world ! 0)"
    by simp
  from repl pass pressed
  have "get_count (snd (handler (run pin12_again_world []) 12 (press 1000 False))) 1
       = get_count (run pin12_again_world []) 1 + 1"
    by blast
  with first pass pressed pushed old0 bounce show ?thesis by blast
qed

subsection \<open>The debounce scenario\<close>

text \<open>
  Claim C4, as amended. A freshly constructed button starts with the timestamp 0, and its
  first interrupt is debounced against it. Take a debounce interval of 200 and interrupts
  with the signal reading pressed at the ticks \<open>t\<close>, \<open>t + 50\<close> and \<open>t + 250\<close>, none of
  them ending in an exception. When the first tick is at least 200 and below half the tick
  period, the interrupt at \<open>t\<close> is accepted, the one at \<open>t + 50\<close> is rejected, the one at
  \<open>t + 250\<close> is accepted, and the press counter ends at exactly 2.
\<close>

theorem fresh_button_scenario:
  assumes "Button_init w p pin_repr name invert 200 function args kwargs = (Inr r, w')"
    and "200 \<le> t" and "t < TICKS_PERIOD div 2"
    and "\<forall>x. Raised x \<notin> set (outcomes w' p
            [press t invert, press (t + 50) invert, press (t + 250) invert])"
  shows "outcomes w' p [press t invert, press (t + 50) invert, press (t + 250) invert]
           = [Pushed, Bounce, Pushed]
       \<and> accepted w' p [press t invert, press (t + 50) invert, press (t + 250) invert]
           = [press t invert, press (t + 250) invert]
       \<and> get_count (run w'
             [(p, press t invert), (p, press (t + 50) invert), (p, press (t + 250) invert)]) r
           = 2"
proof -
  note fresh = fresh_button [OF assms(1)]
  let ?e1 = "press t invert" and ?e2 = "press (t + 50) invert" and ?e3 = "press (t + 250) invert"
  have tt: "b_time_ticks (heap w' ! r) = 0" and dt: "b_dtime (heap w' ! r) = 200"
    and cnt: "b_count (heap w' ! r) = 0" and inv: "b_invert (heap w' ! r) = invert"
    by (subst fresh(3), simp)+
  \<comment> \<open>the first interrupt\<close>
  from assms(2,3) have "ticks_diff t 0 = t"
    using ticks_diff_small [of t 0] by (simp add: TICKS_PERIOD_def)
  with assms(2) have pass1: "\<not> ticks_diff (now_check ?e1) (b_time_ticks (heap w' ! r))
      < b_dtime (heap w' ! r)"
    by (simp add: tt dt press_sel)
  have pressed1: "signal_value (heap w' ! r) (level ?e1)"
    by (simp add: signal_value_def inv press_sel)
  note fire1 = handler_fire [OF fresh(1,2) pass1 pressed1]
  let ?w1 = "snd (handler w' p ?e1)"
  from assms(4) have "\<forall>x. fst (handler w' p ?e1) \<noteq> Raised x" by auto
  with fire1(3) have out1: "fst (handler w' p ?e1) = Pushed" by blast
  have acc1: "accepts w' p ?e1"
    using fresh(1,2) pass1 pressed1 by (simp add: accepts_iff)
  have reg1: "get_myself ?w1 p = Some r" using fresh(1) by (simp add: handler_get_myself)
  have len1: "r < length (heap ?w1)" using fresh(2) by (simp add: handler_heap_length)
  have tt1: "b_time_ticks (heap ?w1 ! r) = t"
    using fire1(4) [OF out1] by (simp add: press_sel)
  have dt1: "b_dtime (heap ?w1 ! r) = 200" using fire1(2) dt by simp
  have cnt1: "b_count (heap ?w1 ! r) = 1" using fire1(1) cnt by simp
  have inv1: "b_invert (heap ?w1 ! r) = invert"
    using handler_fire_invert [OF fresh(1,2)] inv by simp
  \<comment> \<open>the second interrupt\<close>
  have "ticks_diff (now_check ?e2) (b_time_ticks (heap ?w1 ! r)) < b_dtime (heap ?w1 ! r)"
    by (simp add: tt1 dt1 press_sel ticks_diff_shift)
  then have bounce2: "handler ?w1 p ?e2 = (Bounce, ?w1)"
    and nacc2: "\<not> accepts ?w1 p ?e2"
    using reg1 len1 handler_bounce by (simp_all add: accepts_iff)
  \<comment> \<open>the third interrupt\<close>
  have pass3: "\<not> ticks_diff (now_check ?e3) (b_time_ticks (heap ?w1 ! r))
      < b_dtime (heap ?w1 ! r)"
    by (simp add: tt1 dt1 press_sel ticks_diff_shift)
  have pressed3: "signal_value (heap ?w1 ! r) (level ?e3)"
    by (simp add: signal_value_def inv1 press_sel)
  note fire3 = handler_fire [OF reg1 len1 pass3 pressed3]
  from assms(4) bounce2 have "\<forall>x. fst (handler ?w1 p ?e3) \<noteq> Raised x" by auto
  with fire3(3) have out3: "fst (handler ?w1 p ?e3) = Pushed" by blast
  have acc3: "accepts ?w1 p ?e3"
    using reg1 len1 pass3 pressed3 by (simp add: accepts_iff)
  have cnt3: "b_count (heap (snd (handler ?w1 p ?e3)) ! r) = 2"
    using fire3(1) cnt1 by simp
  from out1 bounce2 out3 acc1 nacc2 acc3 cnt3 show ?thesis
    by (simp add: get_count_def)
qed

theorem fresh_button_scenario_witness:
  "Button_init world0 12 ''Pin(GPIO12, mode=IN, pull=PULL_DOWN)'' (Some ''G_off'') False 200
      (Some ledG_switch_off) VNone None = (Inr 0, btnG_off_world)
   \<and> (200 :: int) \<le> 200 \<and> (200 :: int) < TICKS_PERIOD div 2
   \<and> (\<forall>x. Raised x \<notin> set (outcomes btnG_off_world 12
           [press 200 False, press (200 + 50) False, press (200 + 250) False]))
   \<and> outcomes btnG_off_world 12
         [press 200 False, press (200 + 50) False, press (200 + 250) False]
       = [Pushed, Bounce, Pushed]
   \<and> accepted btnG_off_world 12
         [press 200 False, press (200 + 50) False, press (200 + 250) False]
       = [press 200 False, press (200 + 250) False]
   \<and> get_count (run btnG_off_world
        [(12, press 200 False), (12, press (200 + 50) False), (12, press (200 + 250) False)]) 0
       = 2"
proof -
  have init: "Button_init world0 12 ''Pin(GPIO12, mode=IN, pull=PULL_DOWN)'' (Some ''G_off'') False 200
      (Some ledG_switch_off) VNone None = (Inr 0, btnG_off_world)"
    by (simp add: btnG_off_world_def Button_init_def world0_def Let_def)
  have t1: "(200 :: int) \<le> 200" and t2: "(200 :: int) < TICKS_PERIOD div 2"
    by (simp_all add: TICKS_PERIOD_def)
  have ok: "\<forall>x. Raised x \<notin> set (outcomes btnG_off_world 12
           [press 200 False, press (200 + 50) False, press (200 + 250) False])"
    by (simp add: btnG_off_world_eq eval_handler)
  from fresh_button_scenario [OF init t1 t2 ok] init t1 t2 ok show ?thesis by blast
qed

text \<open>
  At the ticks 0, 50 and 250 themselves the first tick is not 200 after the initial
  timestamp: on the script's \<^verbatim>\<open>btnG_off\<close> the interrupt at tick 0 ends at the debounce
  return and the counter ends at 1, not at 2. A first tick in the upper half of the period
  is rejected as well, its wraparound difference to 0 being negative.
\<close>

theorem first_edge_at_tick_0_rejected:
  "outcomes btnG_off_world 12 [press 0 False, press 50 False, press 250 False]
     = [Bounce, Bounce, Pushed]
   \<and> get_count (run btnG_off_world
        [(12, press 0 False), (12, press 50 False), (12, press 250 False)]) 0 = 1
   \<and> get_count (run btnG_off_world
        [(12, press 0 False), (12, press 50 False), (12, press 250 False)]) 0 \<noteq> 2
   \<and> handler btnG_off_world 12 (press (2 ^ 29 + 5000) False) = (Bounce, btnG_off_world)"
  by (simp add: btnG_off_world_eq eval_handler)

subsection \<open>Callback dispatch\<close>

text \<open>
  Claim C5, as amended. In each of the four shapes (no bundle, a positional bundle only, a
  keyword bundle only, both), for a keyword bundle that does not itself hold the name
  \<^verbatim>\<open>myself\<close>, the dispatch calls the function with exactly the positional values, then the
  keyword values, then \<^verbatim>\<open>myself\<close> bound to the firing button.
\<close>

theorem dispatch_shapes:
  assumes "''myself'' \<notin> fst ` set kw"
  shows "do_function self f VNone None = Inr (Call f [] [(''myself'', VButton self)])
       \<and> do_function self f (VTuple xs) None = Inr (Call f xs [(''myself'', VButton self)])
       \<and> do_function self f VNone (Some kw) = Inr (Call f [] (kw @ [(''myself'', VButton self)]))
       \<and> do_function self f (VTuple xs) (Some kw)
           = Inr (Call f xs (kw @ [(''myself'', VButton self)]))"
  using assms by (simp add: do_function_def call_with_myself_def truthy_kwargs_def)

theorem dispatch_shapes_witness:
  "''myself'' \<notin> fst ` set [(''x'', VInt 1)]
   \<and> do_function 0 ledY_vol_up VNone None = Inr (Call ledY_vol_up [] [(''myself'', VButton 0)])
   \<and> do_function 0 ledY_vol_up (VTuple [VInt 5]) None
       = Inr (Call ledY_vol_up [VInt 5] [(''myself'', VButton 0)])
   \<and> do_function 0 ledY_vol_up VNone (Some [(''x'', VInt 1)])
       = Inr (Call ledY_vol_up [] [(''x'', VInt 1), (''myself'', VButton 0)])
   \<and> do_function 0 ledY_vol_up (VTuple [VInt 5]) (Some [(''x'', VInt 1)])
       = Inr (Call ledY_vol_up [VInt 5] [(''x'', VInt 1), (''myself'', VButton 0)])"
  using dispatch_shapes [of "[(''x'', VInt 1)]" 0 ledY_vol_up "[VInt 5]"] by simp

text \<open>
  A keyword bundle that already holds \<^verbatim>\<open>myself\<close>: the call raises \<^verbatim>\<open>TypeError\<close> and the
  function is not called.
\<close>

theorem dispatch_myself_clash:
  "do_function 0 ledY_vol_up VNone (Some [(''myself'', VInt 7)]) = Inl TypeError"
  by (simp add: do_function_def call_with_myself_def truthy_kwargs_def)

text \<open>
  Claim C6, as amended. A positional value that is neither \<^verbatim>\<open>None\<close> nor a tuple is passed
  as the single positional argument, whatever else it is: a scalar, but also a list or a
  string. Only a tuple is passed through as the bundle itself.
\<close>

theorem dispatch_wraps_non_tuple:
  assumes "fargs \<noteq> VNone" and "\<forall>xs. fargs \<noteq> VTuple xs" and "''myself'' \<notin> fst ` set kw"
  shows "do_function self f fargs None = Inr (Call f [fargs] [(''myself'', VButton self)])
       \<and> do_function self f fargs (Some kw)
           = Inr (Call f [fargs] (kw @ [(''myself'', VButton self)]))
       \<and> do_function self f (VTuple ys) None = Inr (Call f ys [(''myself'', VButton self)])
       \<and> do_function self f (VTuple ys) (Some kw)
           = Inr (Call f ys (kw @ [(''myself'', VButton self)]))"
  using assms
  by (cases fargs) (simp_all add: do_function_def call_with_myself_def truthy_kwargs_def)

theorem dispatch_wraps_non_tuple_witness:
  "VList [VInt 1, VInt 2] \<noteq> VNone
   \<and> (\<forall>xs. VList [VInt 1, VInt 2] \<noteq> VTuple xs)
   \<and> ''myself'' \<notin> fst ` set [(''x'', VInt 1)]
   \<and> do_function 0 ledY_vol_up (VList [VInt 1, VInt 2]) None
       = Inr (Call ledY_vol_up [VList [VInt 1, VInt 2]] [(''myself'', VButton 0)])
   \<and> do_function 0 ledY_vol_up (VInt 5) (Some [(''x'', VInt 1)])
       = Inr (Call ledY_vol_up [VInt 5] [(''x'', VInt 1), (''myself'', VButton 0)])
   \<and> do_function 0 ledY_vol_up (VTuple [VInt 1, VInt 2]) None
       = Inr (Call ledY_vol_up [VInt 1, VInt 2] [(''myself'', VButton 0)])"
  using dispatch_wraps_non_tuple [of "VList [VInt 1, VInt 2]" "[(''x'', VInt 1)]" 0 ledY_vol_up "[VInt 1, VInt 2]"]
    dispatch_wraps_non_tuple [of "VInt 5" "[(''x'', VInt 1)]" 0 ledY_vol_up "[VInt 1, VInt 2]"]
  by simp

text \<open>
  The list \<^verbatim>\<open>[1, 2]\<close> is a sequence already, yet it arrives as one positional argument, not
  as the two arguments 1 and 2.
\<close>

theorem list_not_passed_through:
  "do_function 0 ledY_vol_up (VList [VInt 1, VInt 2]) None
     = Inr (Call ledY_vol_up [VList [VInt 1, VInt 2]] [(''myself'', VButton 0)])
   \<and> do_function 0 ledY_vol_up (VList [VInt 1, VInt 2]) None
     \<noteq> Inr (Call ledY_vol_up [VInt 1, VInt 2] [(''myself'', VButton 0)])"
  by (simp add: do_function_def call_with_myself_def truthy_kwargs_def)

subsection \<open>Rebinding\<close>

text \<open>
  Claim C7. On a button that is not a value of the registry (it has been superseded),
  \<^verbatim>\<open>set_function\<close> fails with the assertion's error and leaves the state as it was: the
  function, the positional bundle and the keyword bundle are not replaced. On a registered
  button the call succeeds and replaces all three.
\<close>

theorem set_function_guard:
  assumes "self < length (heap w)"
  shows "(\<not> exist_myself w self \<longrightarrow> set_function w self f a k = (Inl AssertionError, w))
       \<and> (exist_myself w self \<longrightarrow>
            fst (set_function w self f a k) = Inr ()
            \<and> b_function (heap (snd (set_function w self f a k)) ! self) = f
            \<and> b_fargs (heap (snd (set_function w self f a k)) ! self) = a
            \<and> b_fkwargs (heap (snd (set_function w self f a k)) ! self) = k)"
  using assms by (simp add: set_function_def upd_button_def)

theorem set_function_guard_witness:
  "0 < length (heap pin12_again_world) \<and> 1 < length (heap pin12_again_world)
   \<and> \<not> exist_myself pin12_again_world 0
   \<and> set_function pin12_again_world 0 (Some ledG_switch_on) (VInt 5) None
       = (Inl AssertionError, pin12_again_world)
   \<and> exist_myself pin12_again_world 1
   \<and> fst (set_function pin12_again_world 1 (Some ledG_switch_on) (VInt 5) None) = Inr ()
   \<and> b_function (heap (snd (set_function pin12_again_world 1 (Some ledG_switch_on) (VInt 5) None)) ! 1)
       = Some ledG_switch_on
   \<and> b_fargs (heap (snd (set_function pin12_again_world 1 (Some ledG_switch_on) (VInt 5) None)) ! 1)
       = VInt 5
   \<and> b_fkwargs (heap (snd (set_function pin12_again_world 1 (Some ledG_switch_on) (VInt 5) None)) ! 1)
       = None"
  using set_function_guard [of 0 pin12_again_world "Some ledG_switch_on" "VInt 5" None]
    set_function_guard [of 1 pin12_again_world "Some ledG_switch_on" "VInt 5" None]
  by (simp add: pin12_again_world_eq exist_myself_def kl_values_def)

subsection \<open>Volume\<close>

text \<open>
  Claim C8. \<^verbatim>\<open>up\<close> sets the value to \<open>min (v + 1) max\<close> and \<^verbatim>\<open>down\<close> to
  \<open>max (v - 1) min\<close>, except that the value is set to the minimum when the opposite button's
  signal reads active as the handler runs; called without an opposite button they take the
  step and raise. On the volume the script constructs, with bounds 0 and 10, at the value 5,
  \<^verbatim>\<open>up\<close> with the opposite button pressed returns 0, leaves the value 0 and sets the
  duty for 0.
\<close>

theorem volume_step:
  "v_vol (fst (snd (up self (Some ob) raw pwm)))
     = (if get_signal ob raw then v_min self else min (v_vol self + 1) (v_max self))
   \<and> v_vol (fst (snd (down self (Some ob) raw pwm)))
     = (if get_signal ob raw then v_min self else max (v_vol self - 1) (v_min self))
   \<and> v_vol (fst (snd (up self None raw pwm))) = min (v_vol self + 1) (v_max self)
   \<and> v_vol (fst (snd (down self None raw pwm))) = max (v_vol self - 1) (v_min self)
   \<and> Volume_init pwm 0 10 0 120 (CStr ''A'') False
     = (Inr ledY_vol, pwm @ [Freq 120, Duty_u16 0])
   \<and> up (ledY_vol\<lparr>v_vol := 5\<rparr>) (Some btnY_down) False pwm
     = (Inr 0, ledY_vol\<lparr>v_vol := 0\<rparr>, pwm @ [Duty_u16 0])"
  by (simp add: up_def down_def Let_def ledY_vol_def btnY_down_def
      get_signal_def signal_value_def u16value_def py_truediv_def
      Volume_init_def curve_exp_def list_ABCD_def curve_table_def split: sum.splits)

text \<open>
  Claim C9. A curve that is neither an \<^verbatim>\<open>int\<close>, nor a \<^verbatim>\<open>float\<close>, nor one of the letters
  A, B, C, D fails the constructor's assertion before the device is touched: neither the
  frequency nor the duty is set.
\<close>

theorem bad_curve_rejected:
  assumes "\<forall>i. crv \<noteq> CInt i" and "\<forall>f. crv \<noteq> CFloat f" and "crv \<notin> CStr ` set list_ABCD"
  shows "Volume_init pwm mn mx initial freq crv invert = (Inl AssertionError, pwm)"
  using assms by (cases crv) (auto simp: Volume_init_def curve_exp_def)

theorem bad_curve_rejected_witness:
  "(\<forall>i. CStr ''E'' \<noteq> CInt i) \<and> (\<forall>f. CStr ''E'' \<noteq> CFloat f) \<and> CStr ''E'' \<notin> CStr ` set list_ABCD
   \<and> Volume_init [] 0 10 0 120 (CStr ''E'') False = (Inl AssertionError, [])"
  using bad_curve_rejected [of "CStr ''E''" "[]" 0 10 0 120 False]
  by (auto simp: list_ABCD_def)




end
